theory Spec2Isabelle
  imports Main "HOL-Library.Sublist" "HOL-Library.Word"
begin

section \<open>Python values\<close>

text \<open>
  The module \<^verbatim>\<open>genomedata/_util.py\<close> is Python 2 code (its iterator defines
  \<^verbatim>\<open>next\<close>, not \<^verbatim>\<open>__next__\<close>), so a \<^verbatim>\<open>str\<close> is a byte string:
  a \<^typ>\<open>string\<close> here. An exception is a value of \<open>error\<close>; a call that can raise
  returns \<open>error + 'a\<close>, with \<open>Inl\<close> for the exception. \<open>StructError\<close> is
  \<^verbatim>\<open>struct.error\<close>, which is not a subclass of \<^verbatim>\<open>IOError\<close>.
\<close>

datatype error =
  StopIteration | ValueError | AssertionError | IndexError | IOError | StructError

text \<open>\<^verbatim>\<open>s.startswith(prefix)\<close> and \<^verbatim>\<open>s.endswith(suffix)\<close>.\<close>

definition startswith :: "string \<Rightarrow> string \<Rightarrow> bool" where
  "startswith s pre = (take (length pre) s = pre)"

definition endswith :: "string \<Rightarrow> string \<Rightarrow> bool" where
  "endswith s suf = (length suf \<le> length s \<and> drop (length s - length suf) s = suf)"

text \<open>
  \<^verbatim>\<open>s.rstrip()\<close> with no argument removes the trailing whitespace of a byte string:
  space, tab, line feed, vertical tab, form feed and carriage return.
\<close>

definition isspace :: "char \<Rightarrow> bool" where
  "isspace c = (c = CHR '' '' \<or> c = CHR 0x09 \<or> c = CHR 0x0A \<or> c = CHR 0x0B
     \<or> c = CHR 0x0C \<or> c = CHR 0x0D)"

definition rstrip :: "string \<Rightarrow> string" where
  "rstrip s = rev (dropWhile isspace (rev s))"

text \<open>\<^verbatim>\<open>xs[i]\<close> for a literal index \<open>i \<ge> 0\<close>: out of range it raises.\<close>

definition getitem :: "'a list \<Rightarrow> nat \<Rightarrow> error + 'a" where
  "getitem xs i = (if i < length xs then Inr (xs ! i) else Inl IndexError)"

section \<open>LightIterator\<close>

text \<open>
  The iterator object: \<open>handle\<close> is what is left of the iterable \<^verbatim>\<open>self._handle\<close>
  (the lines not yet read), \<open>defline\<close> is \<^verbatim>\<open>self._defline\<close>.
\<close>

record LightIterator =
  handle :: "string list"
  defline :: "string option"

definition LightIterator_init :: "string list \<Rightarrow> LightIterator" where
  "LightIterator_init h = \<lparr>handle = h, defline = None\<rparr>"

text \<open>Python's truth value of \<^verbatim>\<open>defline_old\<close>: \<^verbatim>\<open>None\<close> and \<^verbatim>\<open>""\<close> are false.\<close>

fun truthy :: "string option \<Rightarrow> bool" where
  "truthy None = False"
| "truthy (Some s) = (s \<noteq> [])"

text \<open>
  The \<^verbatim>\<open>for line in self._handle\<close> loop of \<^verbatim>\<open>next\<close>. It ends by the
  \<^verbatim>\<open>raise StopIteration\<close> inside it (\<open>Raised\<close>), by a \<^verbatim>\<open>break\<close>
  (\<open>Broke\<close>), or when the handle has no more lines (\<open>Exhausted\<close>). The result holds the
  local variables \<^verbatim>\<open>lines\<close> and \<^verbatim>\<open>defline_old\<close>, the attribute
  \<^verbatim>\<open>self._defline\<close> and the lines the loop has not read.
\<close>

datatype loop_exit = Raised | Broke | Exhausted

fun next_loop ::
  "string list \<Rightarrow> string list \<Rightarrow> string option \<Rightarrow> string option \<Rightarrow>
   loop_exit \<times> string list \<times> string option \<times> string option \<times> string list" where
  "next_loop [] lines defline_old self_defline = (Exhausted, lines, defline_old, self_defline, [])"
| "next_loop (line # h) lines defline_old self_defline =
     (if line = [] then
        (if \<not> truthy defline_old \<and> lines = [] then (Raised, lines, defline_old, self_defline, h)
         else if truthy defline_old then (Broke, lines, defline_old, None, h)
         else next_loop h lines defline_old self_defline)
      else if startswith line ''>'' then
        (let self_defline = Some (rstrip (drop 1 line)) in
         if truthy defline_old \<or> lines \<noteq> [] then (Broke, lines, defline_old, self_defline, h)
         else next_loop h lines self_defline self_defline)
      else next_loop h (lines @ [rstrip line]) defline_old self_defline)"

definition "next" :: "LightIterator \<Rightarrow> (error + string \<times> string) \<times> LightIterator" where
  "next self =
     (case next_loop (handle self) [] (defline self) (defline self) of
        (ex, lines, defline_old, self_defline, h) \<Rightarrow>
          (let self' = \<lparr>handle = h, defline = self_defline\<rparr> in
           if ex = Raised then (Inl StopIteration, self')
           else if lines = [] then (Inl StopIteration, self')
           else (case defline_old of
                   None \<Rightarrow> (Inl ValueError, self')
                 | Some d \<Rightarrow> (Inr (d, concat lines), self'))))"

text \<open>The vocabulary of the record stream: marker lines, body lines, labels.\<close>

definition is_marker :: "string \<Rightarrow> bool" where
  "is_marker line = startswith line ''>''"

definition is_body :: "string \<Rightarrow> bool" where
  "is_body line = (line \<noteq> [] \<and> \<not> startswith line ''>'')"

definition label :: "string \<Rightarrow> string" where
  "label line = rstrip (drop 1 line)"

text \<open>
  A stream written from records: each block is a marker line and the body lines that
  follow it. A block is well formed when its marker line starts with \<^verbatim>\<open>>\<close> and has
  a non-empty label, and it has at least one body line.
\<close>

definition render :: "(string \<times> string list) list \<Rightarrow> string list" where
  "render blocks = concat (map (\<lambda>(m, bs). m # bs) blocks)"

definition well_formed_block :: "string \<times> string list \<Rightarrow> bool" where
  "well_formed_block blk =
     (case blk of (m, bs) \<Rightarrow> is_marker m \<and> label m \<noteq> [] \<and> bs \<noteq> [] \<and> list_all is_body bs)"

definition record_of :: "string \<times> string list \<Rightarrow> string \<times> string" where
  "record_of blk = (case blk of (m, bs) \<Rightarrow> (label m, concat (map rstrip bs)))"

section \<open>Signature sniffer\<close>

text \<open>
  A file system maps a path to the bytes of the file, if there is one. \<^verbatim>\<open>open\<close> of a
  missing path raises \<^verbatim>\<open>IOError\<close>; \<^verbatim>\<open>read(4)\<close> returns the first four bytes, or
  fewer when the file is shorter. \<^verbatim>\<open>struct.unpack\<close> of the formats \<^verbatim>\<open><L\<close> and
  \<^verbatim>\<open>>L\<close> wants exactly four bytes, raises \<^verbatim>\<open>struct.error\<close> otherwise, and returns
  a tuple of one unsigned integer.
\<close>

type_synonym byte = "8 word"

definition BIG_WIG_SIGNATURE :: int where
  "BIG_WIG_SIGNATURE = 0x888FFC26"

definition BIG_WIG_SIGNATURE_BYTE_SIZE :: nat where
  "BIG_WIG_SIGNATURE_BYTE_SIZE = 4"

fun from_bytes_big :: "byte list \<Rightarrow> int" where
  "from_bytes_big bs = foldl (\<lambda>acc b. 256 * acc + uint b) 0 bs"

definition struct_unpack :: "string \<Rightarrow> byte list \<Rightarrow> error + int list" where
  "struct_unpack fmt s =
     (if fmt = ''<L'' then
        (if length s = 4 then Inr [from_bytes_big (rev s)] else Inl StructError)
      else if fmt = ''>L'' then
        (if length s = 4 then Inr [from_bytes_big s] else Inl StructError)
      else Inl StructError)"

definition is_big_wig :: "(string \<rightharpoonup> byte list) \<Rightarrow> string \<Rightarrow> error + bool" where
  "is_big_wig fs filename =
     (case fs filename of
        None \<Rightarrow> Inl IOError
      | Some content \<Rightarrow>
          (let signature_string = take BIG_WIG_SIGNATURE_BYTE_SIZE content in
           case struct_unpack ''<L'' signature_string of
             Inl e \<Rightarrow> Inl e
           | Inr le \<Rightarrow>
               (case getitem le 0 of
                  Inl e \<Rightarrow> Inl e
                | Inr little_endian_signature \<Rightarrow>
                    (case struct_unpack ''>L'' signature_string of
                       Inl e \<Rightarrow> Inl e
                     | Inr be \<Rightarrow>
                         (case getitem be 0 of
                            Inl e \<Rightarrow> Inl e
                          | Inr big_endian_signature \<Rightarrow>
                              (if little_endian_signature = BIG_WIG_SIGNATURE \<or>
                                  big_endian_signature = BIG_WIG_SIGNATURE
                               then Inr True else Inr False))))))"

section \<open>Transparent file opener\<close>

text \<open>
  \<^verbatim>\<open>os.extsep\<close> is the dot. The two library openers, \<^verbatim>\<open>gzip.open\<close> (imported as
  \<^verbatim>\<open>_gzip_open\<close>) and the builtin \<^verbatim>\<open>open\<close>, are parameters: each takes the file
  name and the remaining arguments and returns a handle of its own kind or raises.
  \<^verbatim>\<open>gzip_open\<close> wraps the handle of \<^verbatim>\<open>gzip.open\<close> in \<^verbatim>\<open>closing\<close>; the builtin's
  file object is returned as it is.
\<close>

definition EXT_GZ :: string where
  "EXT_GZ = ''gz''"

definition extsep :: string where
  "extsep = ''.''"

definition SUFFIX_GZ :: string where
  "SUFFIX_GZ = extsep @ EXT_GZ"

datatype ('g, 'f) stream = Closing 'g | File 'f

definition gzip_open ::
  "(string \<Rightarrow> 'a \<Rightarrow> error + 'g) \<Rightarrow> string \<Rightarrow> 'a \<Rightarrow> error + ('g, 'f) stream" where
  "gzip_open gzip_lib_open filename args =
     (case gzip_lib_open filename args of Inl e \<Rightarrow> Inl e | Inr g \<Rightarrow> Inr (Closing g))"

definition maybe_gzip_open ::
  "(string \<Rightarrow> 'a \<Rightarrow> error + 'g) \<Rightarrow> (string \<Rightarrow> 'a \<Rightarrow> error + 'f) \<Rightarrow> string \<Rightarrow> 'a \<Rightarrow>
   error + ('g, 'f) stream" where
  "maybe_gzip_open gzip_lib_open builtin_open filename args =
     (if endswith filename SUFFIX_GZ then gzip_open gzip_lib_open filename args
      else (case builtin_open filename args of Inl e \<Rightarrow> Inl e | Inr f \<Rightarrow> Inr (File f)))"

section \<open>Array accumulation helpers\<close>

text \<open>
  \<^verbatim>\<open>init_num_obs\<close> reads \<^verbatim>\<open>continuous.shape[1]\<close>: of the array only the shape
  tuple matters. A failed \<^verbatim>\<open>assert\<close> raises \<^verbatim>\<open>AssertionError\<close>.
\<close>

record ndarray =
  shape :: "int list"

definition init_num_obs :: "int option \<Rightarrow> ndarray \<Rightarrow> error + int" where
  "init_num_obs num_obs continuous =
     (case getitem (shape continuous) 1 of
        Inl e \<Rightarrow> Inl e
      | Inr curr_num_obs \<Rightarrow>
          if num_obs = None \<or> num_obs = Some curr_num_obs then Inr curr_num_obs
          else Inl AssertionError)"

text \<open>
  \<^verbatim>\<open>new_extrema(func, data, extrema)\<close> calls \<^verbatim>\<open>func\<close> twice: on the batch
  \<^verbatim>\<open>data\<close>, a sequence of rows, and on the two-element list
  \<^verbatim>\<open>[extrema, curr_extrema]\<close>, both along axis 0. An element of such a sequence is an
  array of numbers or \<^verbatim>\<open>None\<close>. The arrays are numpy float arrays: a number is
  \<^verbatim>\<open>nan\<close>, the value that stands for missing data, or a value of a linearly ordered
  type \<open>'a\<close> (the other floats, infinities included, under their order; finding an
  extremum or comparing rounds nothing).
\<close>

datatype 'a number = NaN | Num (num_value: 'a)

datatype 'a operand = NoneValue | Array "'a number list"

definition new_extrema ::
  "('a operand list \<Rightarrow> nat \<Rightarrow> error + 'a number list) \<Rightarrow> 'a operand list \<Rightarrow> 'a operand \<Rightarrow>
   error + 'a number list" where
  "new_extrema func data extrema =
     (case func data 0 of
        Inl e \<Rightarrow> Inl e
      | Inr curr_extrema \<Rightarrow> func [extrema, Array curr_extrema] 0)"

text \<open>
  The operators the callers pass as \<^verbatim>\<open>func\<close> are numpy's \<^verbatim>\<open>amin\<close> and
  \<^verbatim>\<open>amax\<close>, which are not part of this repository. Their model: the minimum and
  the maximum of two numbers are \<^verbatim>\<open>nan\<close> when one of them is, and \<^verbatim>\<open><=\<close> is false
  when one side is \<^verbatim>\<open>nan\<close>. The sequence is made a two-dimensional array, which
  fails when an element is \<^verbatim>\<open>None\<close> or the rows differ in length; the reduction of
  an empty axis fails; axis 0 reduces down the columns and axis 1 along each row.
\<close>

fun np_minimum :: "'a::linorder number \<Rightarrow> 'a number \<Rightarrow> 'a number" where
  "np_minimum (Num a) (Num b) = Num (min a b)"
| "np_minimum _ _ = NaN"

fun np_maximum :: "'a::linorder number \<Rightarrow> 'a number \<Rightarrow> 'a number" where
  "np_maximum (Num a) (Num b) = Num (max a b)"
| "np_maximum _ _ = NaN"

fun np_less_equal :: "'a::linorder number \<Rightarrow> 'a number \<Rightarrow> bool" where
  "np_less_equal (Num a) (Num b) = (a \<le> b)"
| "np_less_equal _ _ = False"

fun as_rows :: "'a operand list \<Rightarrow> 'a number list list option" where
  "as_rows [] = Some []"
| "as_rows (NoneValue # a) = None"
| "as_rows (Array row # a) = (case as_rows a of None \<Rightarrow> None | Some rows \<Rightarrow> Some (row # rows))"

definition np_reduce ::
  "('a number \<Rightarrow> 'a number \<Rightarrow> 'a number) \<Rightarrow> 'a operand list \<Rightarrow> nat \<Rightarrow> error + 'a number list" where
  "np_reduce f a axis =
     (case as_rows a of
        None \<Rightarrow> Inl ValueError
      | Some [] \<Rightarrow> Inl ValueError
      | Some (r # rs) \<Rightarrow>
          if list_ex (\<lambda>row. length row \<noteq> length r) rs then Inl ValueError
          else if axis = 0 then Inr (foldl (map2 f) r rs)
          else if axis = 1 then
            (if r = [] then Inl ValueError
             else Inr (map (\<lambda>row. foldl f (hd row) (tl row)) (r # rs)))
          else Inl ValueError)"

definition amin :: "'a::linorder operand list \<Rightarrow> nat \<Rightarrow> error + 'a number list" where
  "amin = np_reduce np_minimum"

definition amax :: "'a::linorder operand list \<Rightarrow> nat \<Rightarrow> error + 'a number list" where
  "amax = np_reduce np_maximum"

section \<open>Comment filter\<close>

text \<open>
  \<^verbatim>\<open>def ignore_comments(iterable):
      return (item for item in iterable if not item.startswith("#"))\<close>
  The generator, run over a finite iterable, as the list of the items it yields.
\<close>

fun ignore_comments :: "string list \<Rightarrow> string list" where
  "ignore_comments [] = []"
| "ignore_comments (item # iterable) =
     (if \<not> startswith item ''#'' then item # ignore_comments iterable
      else ignore_comments iterable)"

section \<open>Iterating to exhaustion\<close>

text \<open>
  Each call of \<^verbatim>\<open>next\<close> reads a prefix of the handle; the lines it has accumulated
  are the stripped body lines of that prefix. A call that returns a record has read at
  least one line, so repeated calls end.
\<close>

lemma next_loop_consumed:
  "next_loop h ls d sd = (ex, ls', d', sd', h') \<Longrightarrow>
     \<exists>consumed. h = consumed @ h' \<and> ls' = ls @ map rstrip (filter is_body consumed)"
proof (induction h arbitrary: ls d sd)
  case Nil
  then show ?case by simp
next
  case (Cons line h)
  have stop: "\<exists>consumed. line # h = consumed @ h \<and> ls = ls @ map rstrip (filter is_body consumed)"
    if "\<not> is_body line"
    using that by (intro exI[of _ "[line]"]) simp
  have step: "\<exists>consumed. line # h = consumed @ h' \<and> ls' = ls @ map rstrip (filter is_body consumed)"
    if "next_loop h ls0 d0 sd0 = (ex, ls', d', sd', h')"
      and "ls0 = ls @ map rstrip (filter is_body [line])" for ls0 d0 sd0
  proof -
    from Cons.IH [OF that(1)] obtain consumed where
      "h = consumed @ h'" "ls' = ls0 @ map rstrip (filter is_body consumed)" by blast
    then show ?thesis
      using that(2) by (intro exI[of _ "line # consumed"]) simp
  qed
  show ?case
  proof (cases "line = []")
    case True
    then have nb: "\<not> is_body line" by (simp add: is_body_def)
    show ?thesis
    proof (cases "(\<not> truthy d \<and> ls = []) \<or> truthy d")
      case stopped: True
      then have "ls' = ls \<and> h' = h"
        using Cons.prems True by (simp split: if_splits)
      then show ?thesis using stop [OF nb] by simp
    next
      case False
      then have "\<not> truthy d" "ls \<noteq> []" by auto
      then have "next_loop h ls d sd = (ex, ls', d', sd', h')"
        using Cons.prems True by simp
      from step [OF this] nb show ?thesis by simp
    qed
  next
    case False
    show ?thesis
    proof (cases "startswith line ''>''")
      case True
      then have nb: "\<not> is_body line" by (simp add: is_body_def)
      show ?thesis
      proof (cases "truthy d \<or> ls \<noteq> []")
        case stopped: True
        then have "ls' = ls \<and> h' = h"
          using Cons.prems False True by (simp add: Let_def split: if_splits)
        then show ?thesis using stop [OF nb] by simp
      next
        case cont: False
        then have "\<not> truthy d" "ls = []" by auto
        then have "next_loop h ls (Some (rstrip (drop 1 line))) (Some (rstrip (drop 1 line)))
            = (ex, ls', d', sd', h')"
          using Cons.prems False True by (simp add: Let_def)
        from step [OF this] nb show ?thesis by simp
      qed
    next
      case nm: False
      then have b: "is_body line" using False by (simp add: is_body_def)
      have "next_loop h (ls @ [rstrip line]) d sd = (ex, ls', d', sd', h')"
        using Cons.prems False nm by simp
      from step [OF this] b show ?thesis by simp
    qed
  qed
qed

lemma next_Inr_shorter:
  assumes "next self = (Inr r, self')"
  shows "length (handle self') < length (handle self)"
proof -
  obtain ex ls d sd h where
    L: "next_loop (handle self) [] (defline self) (defline self) = (ex, ls, d, sd, h)"
    by (metis prod_cases5)
  from assms L have "ls \<noteq> []" "handle self' = h"
    by (auto simp: next_def Let_def split: if_splits option.splits)
  moreover from next_loop_consumed [OF L] obtain consumed where
    "handle self = consumed @ h" "ls = [] @ map rstrip (filter is_body consumed)" by blast
  ultimately show ?thesis by (cases consumed) auto
qed

text \<open>
  \<^verbatim>\<open>for record in LightIterator(handle)\<close>: the records yielded, and the exception that
  ends the iteration (\<open>StopIteration\<close> is the normal end).
\<close>

function drain :: "LightIterator \<Rightarrow> (string \<times> string) list \<times> error" where
  "drain self =
     (case next self of
        (Inl e, self') \<Rightarrow> ([], e)
      | (Inr r, self') \<Rightarrow> (case drain self' of (rs, e) \<Rightarrow> (r # rs, e)))"
  by pat_completeness auto
termination
proof (relation "measure (\<lambda>self. length (handle self))")
  show "wf (measure (\<lambda>self. length (handle self)))" by simp
next
  fix self :: LightIterator and x1 self' r
  assume "(x1, self') = next self" "x1 = Inr r"
  then have "next self = (Inr r, self')" by simp
  then show "(self', self) \<in> measure (\<lambda>self. length (handle self))"
    by (simp add: next_Inr_shorter)
qed

declare drain.simps [simp del]

section \<open>Properties of the string helpers\<close>

lemma startswith_char:
  "startswith s [c] = (case s of [] \<Rightarrow> False | x # _ \<Rightarrow> x = c)"
  by (cases s) (simp_all add: startswith_def)

section \<open>Record stream parser: what iteration yields\<close>

lemma well_formed_block_pair:
  "well_formed_block (m, bs) = (is_marker m \<and> label m \<noteq> [] \<and> bs \<noteq> [] \<and> list_all is_body bs)"
  by (simp add: well_formed_block_def)

lemma is_marker_nonempty: "is_marker m \<Longrightarrow> m \<noteq> []"
  by (auto simp: is_marker_def startswith_def)

lemma next_loop_body_run:
  "list_all is_body bs \<Longrightarrow>
     next_loop (bs @ rest) ls d sd = next_loop rest (ls @ map rstrip bs) d sd"
  by (induction bs arbitrary: ls) (simp_all add: is_body_def)

lemma next_loop_marker_first:
  "is_marker m \<Longrightarrow> next_loop (m # h) [] None sd = next_loop h [] (Some (label m)) (Some (label m))"
  using is_marker_nonempty [of m] by (simp add: is_marker_def label_def Let_def)

lemma next_pending_marker:
  assumes "d \<noteq> []" "bs \<noteq> []" "list_all is_body bs" "is_marker m"
  shows "next \<lparr>handle = bs @ m # rest, defline = Some d\<rparr> =
     (Inr (d, concat (map rstrip bs)), \<lparr>handle = rest, defline = Some (label m)\<rparr>)"
proof -
  have "next_loop (bs @ m # rest) [] (Some d) (Some d) =
      (Broke, map rstrip bs, Some d, Some (label m), rest)"
    using assms is_marker_nonempty [of m]
    by (simp add: next_loop_body_run is_marker_def label_def Let_def)
  then show ?thesis using assms by (simp add: next_def)
qed

lemma next_pending_end:
  assumes "bs \<noteq> []" "list_all is_body bs"
  shows "next \<lparr>handle = bs, defline = Some d\<rparr> =
     (Inr (d, concat (map rstrip bs)), \<lparr>handle = [], defline = Some d\<rparr>)"
proof -
  have "next_loop (bs @ []) [] (Some d) (Some d) = (Exhausted, map rstrip bs, Some d, Some d, [])"
    using assms by (simp only: next_loop_body_run) simp
  then show ?thesis using assms by (simp add: next_def)
qed

lemma next_empty_handle: "next \<lparr>handle = [], defline = dl\<rparr> = (Inl StopIteration, \<lparr>handle = [], defline = dl\<rparr>)"
  by (simp add: next_def)

lemma drain_pending:
  "list_all well_formed_block blocks \<Longrightarrow> d \<noteq> [] \<Longrightarrow> bs \<noteq> [] \<Longrightarrow> list_all is_body bs \<Longrightarrow>
     drain \<lparr>handle = bs @ render blocks, defline = Some d\<rparr> =
       ((d, concat (map rstrip bs)) # map record_of blocks, StopIteration)"
proof (induction blocks arbitrary: d bs)
  case Nil
  have e: "drain \<lparr>handle = [], defline = Some d\<rparr> = ([], StopIteration)"
    by (subst drain.simps) (simp add: next_empty_handle)
  have "drain \<lparr>handle = bs, defline = Some d\<rparr> =
      (case drain \<lparr>handle = [], defline = Some d\<rparr> of
         (rs, e) \<Rightarrow> ((d, concat (map rstrip bs)) # rs, e))"
    by (subst drain.simps) (simp add: next_pending_end [OF Nil(3) Nil(4)])
  then show ?case
    by (simp add: e render_def)
next
  case (Cons blk blocks)
  obtain m bs' where blk: "blk = (m, bs')" by (cases blk)
  with Cons.prems have wf: "is_marker m" "label m \<noteq> []" "bs' \<noteq> []" "list_all is_body bs'"
    and rest: "list_all well_formed_block blocks"
    by (simp_all add: well_formed_block_pair)
  have r: "render (blk # blocks) = m # bs' @ render blocks"
    by (simp add: render_def blk)
  have "drain \<lparr>handle = bs @ render (blk # blocks), defline = Some d\<rparr> =
      (case drain \<lparr>handle = bs' @ render blocks, defline = Some (label m)\<rparr> of
         (rs, e) \<Rightarrow> ((d, concat (map rstrip bs)) # rs, e))"
    by (subst drain.simps)
      (simp add: r next_pending_marker [OF Cons.prems(2) Cons.prems(3) Cons.prems(4) wf(1)])
  also have "drain \<lparr>handle = bs' @ render blocks, defline = Some (label m)\<rparr> =
      ((label m, concat (map rstrip bs')) # map record_of blocks, StopIteration)"
    using Cons.IH [OF rest wf(2) wf(3) wf(4)] .
  finally show ?case
    by (simp add: record_of_def blk)
qed

lemma drain_well_formed:
  assumes "list_all well_formed_block blocks"
  shows "drain (LightIterator_init (render blocks)) = (map record_of blocks, StopIteration)"
proof (cases blocks)
  case Nil
  then show ?thesis
    by (subst drain.simps) (simp add: LightIterator_init_def render_def next_empty_handle)
next
  case (Cons blk blocks')
  obtain m bs where blk: "blk = (m, bs)" by (cases blk)
  with assms Cons have wf: "is_marker m" "label m \<noteq> []" "bs \<noteq> []" "list_all is_body bs"
    and rest: "list_all well_formed_block blocks'"
    by (simp_all add: well_formed_block_pair)
  have r: "render blocks = m # bs @ render blocks'"
    by (simp add: render_def blk Cons)
  have n: "next (LightIterator_init (render blocks)) = next \<lparr>handle = bs @ render blocks', defline = Some (label m)\<rparr>"
    by (simp add: next_def LightIterator_init_def r next_loop_marker_first [OF wf(1)] del: next_loop.simps)
  have "drain (LightIterator_init (render blocks)) = drain \<lparr>handle = bs @ render blocks', defline = Some (label m)\<rparr>"
    by (subst drain.simps, subst (2) drain.simps) (simp only: n)
  also have "\<dots> = ((label m, concat (map rstrip bs)) # map record_of blocks', StopIteration)"
    using drain_pending [OF rest wf(2) wf(3) wf(4)] .
  finally show ?thesis
    by (simp add: Cons blk record_of_def)
qed

lemma markers_render:
  "list_all well_formed_block blocks \<Longrightarrow> filter is_marker (render blocks) = map fst blocks"
proof (induction blocks)
  case Nil
  then show ?case by (simp add: render_def)
next
  case (Cons blk blocks)
  obtain m bs where blk: "blk = (m, bs)" by (cases blk)
  with Cons.prems have wf: "is_marker m" "list_all is_body bs"
    by (simp_all add: well_formed_block_pair)
  have "filter is_marker bs = []"
    using wf(2) by (induction bs) (simp_all add: is_body_def is_marker_def)
  then show ?case
    using Cons wf(1) by (simp add: render_def blk)
qed

lemma next_loop_no_label:
  "ls \<noteq> [] \<Longrightarrow>
     \<exists>ex ls' sd' h'. next_loop h ls None sd = (ex, ls', None, sd', h') \<and> ex \<noteq> Raised \<and> ls' \<noteq> []"
proof (induction h arbitrary: ls sd)
  case Nil
  then show ?case by simp
next
  case (Cons line h)
  show ?case
  proof (cases "line = []")
    case True
    then have "next_loop (line # h) ls None sd = next_loop h ls None sd"
      using Cons.prems by simp
    then show ?thesis using Cons.IH [OF Cons.prems] by simp
  next
    case False
    show ?thesis
    proof (cases "startswith line ''>''")
      case True
      then show ?thesis using False Cons.prems by (simp add: Let_def)
    next
      case nm: False
      then have "next_loop (line # h) ls None sd = next_loop h (ls @ [rstrip line]) None sd"
        using False by simp
      then show ?thesis using Cons.IH [of "ls @ [rstrip line]" sd] by simp
    qed
  qed
qed

lemma next_body_first:
  assumes "is_body l"
  shows "fst (next (LightIterator_init (l # rest))) = Inl ValueError"
proof -
  have "next_loop (l # rest) [] None None = next_loop rest [rstrip l] None None"
    using assms by (simp add: is_body_def)
  moreover obtain ex ls' sd' h' where
    "next_loop rest [rstrip l] None None = (ex, ls', None, sd', h')" "ex \<noteq> Raised" "ls' \<noteq> []"
    using next_loop_no_label [of "[rstrip l]" rest None] by auto
  ultimately show ?thesis
    by (simp add: next_def LightIterator_init_def del: next_loop.simps)
qed

lemma next_Inr_body:
  assumes "next self = (Inr (lab, body), self')"
  shows "\<exists>consumed. handle self = consumed @ handle self' \<and> filter is_body consumed \<noteq> []
           \<and> body = concat (map rstrip (filter is_body consumed))"
proof -
  obtain ex ls d sd h where
    L: "next_loop (handle self) [] (defline self) (defline self) = (ex, ls, d, sd, h)"
    by (metis prod_cases5)
  from assms L have *: "ls \<noteq> []" "handle self' = h" "body = concat ls"
    by (auto simp: next_def Let_def split: if_splits option.splits)
  from next_loop_consumed [OF L] obtain consumed where
    "handle self = consumed @ h" "ls = [] @ map rstrip (filter is_body consumed)" by blast
  with * show ?thesis by auto
qed

lemma next_pending_no_body:
  assumes "d \<noteq> []" "rest = [] \<or> \<not> is_body (hd rest)"
  shows "fst (next \<lparr>handle = rest, defline = Some d\<rparr>) = Inl StopIteration"
proof (cases rest)
  case Nil
  then show ?thesis by (simp add: next_def)
next
  case (Cons line h)
  with assms(2) have "line = [] \<or> startswith line ''>''"
    by (auto simp: is_body_def)
  then show ?thesis
    using assms(1) Cons by (auto simp: next_def Let_def)
qed

lemma next_marker_no_body:
  assumes "is_marker m" "label m \<noteq> []" "rest = [] \<or> \<not> is_body (hd rest)"
  shows "fst (next (LightIterator_init (m # rest))) = Inl StopIteration"
proof -
  have "next (LightIterator_init (m # rest)) = next \<lparr>handle = rest, defline = Some (label m)\<rparr>"
    by (simp add: next_def LightIterator_init_def next_loop_marker_first [OF assms(1)] del: next_loop.simps)
  then show ?thesis
    using next_pending_no_body [OF assms(2) assms(3)] by simp
qed

text \<open>
  C1, as amended. The claim as stated fails on streams in which a marker line has no
  body line: the stream \<^verbatim>\<open>>a\<close>, \<^verbatim>\<open>>b\<close>, \<^verbatim>\<open>TT\<close> has two marker lines and
  yields no record, and the stream holding only \<^verbatim>\<open>>a\<close> ends with a pending label
  and no final record.
\<close>

theorem marker_without_body_ends_iteration:
  "length (filter is_marker [''>a\<newline>'', ''>b\<newline>'', ''TT\<newline>'']) = 2
   \<and> drain (LightIterator_init [''>a\<newline>'', ''>b\<newline>'', ''TT\<newline>'']) = ([], StopIteration)
   \<and> fst (next (LightIterator_init [''>a\<newline>''])) = Inl StopIteration
   \<and> defline (snd (next (LightIterator_init [''>a\<newline>'']))) = Some ''a''"
proof (intro conjI)
  show "length (filter is_marker [''>a\<newline>'', ''>b\<newline>'', ''TT\<newline>'']) = 2"
    by (simp add: is_marker_def startswith_def)
  show "drain (LightIterator_init [''>a\<newline>'', ''>b\<newline>'', ''TT\<newline>'']) = ([], StopIteration)"
    by code_simp
  show "fst (next (LightIterator_init [''>a\<newline>''])) = Inl StopIteration"
    by code_simp
  show "defline (snd (next (LightIterator_init [''>a\<newline>'']))) = Some ''a''"
    by code_simp
qed

text \<open>
  C1. For every stream of well-formed blocks (each marker line has a non-empty label and
  is followed by at least one body line, so the stream starts with a marker line and
  holds no empty string), iterating to exhaustion yields exactly one record for each
  marker line, in file order, and then ends normally: the records are the blocks' labels
  with their stripped body lines concatenated, every label is non-empty, there are as
  many records as marker lines, and the last block's record is yielded at end of stream.
\<close>

theorem drain_yields_one_record_per_marker:
  assumes "list_all well_formed_block blocks"
  shows "drain (LightIterator_init (render blocks)) = (map record_of blocks, StopIteration)
    \<and> length (fst (drain (LightIterator_init (render blocks)))) =
        length (filter is_marker (render blocks))
    \<and> map fst (fst (drain (LightIterator_init (render blocks)))) =
        map label (filter is_marker (render blocks))
    \<and> list_all (\<lambda>r. fst r \<noteq> []) (fst (drain (LightIterator_init (render blocks))))"
proof -
  have d: "drain (LightIterator_init (render blocks)) = (map record_of blocks, StopIteration)"
    using assms by (rule drain_well_formed)
  have m: "filter is_marker (render blocks) = map fst blocks"
    using assms by (rule markers_render)
  have l: "map fst (map record_of blocks) = map label (map fst blocks)"
    by (simp add: record_of_def split_def)
  have n: "list_all (\<lambda>r. fst r \<noteq> []) (map record_of blocks)"
    using assms
    by (induction blocks) (auto simp: record_of_def well_formed_block_def)
  show ?thesis
    unfolding d m using l n by simp
qed

theorem drain_yields_one_record_per_marker_witness:
  "drain (LightIterator_init
     [''>chr1 \<newline>'', ''ACGT\<newline>'', ''\<newline>'', ''GG'', ''>chr2\<newline>'', ''TT\<newline>''])
   = ([(''chr1'', ''ACGTGG''), (''chr2'', ''TT'')], StopIteration)"
proof -
  have wf: "list_all well_formed_block
      [(''>chr1 \<newline>'', [''ACGT\<newline>'', ''\<newline>'', ''GG'']), (''>chr2\<newline>'', [''TT\<newline>''])]"
    by (simp add: well_formed_block_def is_marker_def is_body_def startswith_def label_def
        rstrip_def isspace_def)
  show ?thesis
    using drain_yields_one_record_per_marker [OF wf]
    by (simp add: render_def record_of_def label_def rstrip_def isspace_def)
qed

text \<open>
  C4. For every stream whose first line is a body line (a non-empty line that does not
  start with \<^verbatim>\<open>>\<close>), whatever follows it, the first call of \<^verbatim>\<open>next\<close> on a new
  iterator raises \<^verbatim>\<open>ValueError\<close>, and so iterating yields no record and ends with
  that error.
\<close>

theorem body_before_marker_raises:
  assumes "is_body l"
  shows "fst (next (LightIterator_init (l # rest))) = Inl ValueError
    \<and> drain (LightIterator_init (l # rest)) = ([], ValueError)"
proof
  show e: "fst (next (LightIterator_init (l # rest))) = Inl ValueError"
    using assms by (rule next_body_first)
  obtain self' where "next (LightIterator_init (l # rest)) = (Inl ValueError, self')"
    using e by (cases "next (LightIterator_init (l # rest))") simp
  then show "drain (LightIterator_init (l # rest)) = ([], ValueError)"
    by (subst drain.simps) simp
qed

theorem body_before_marker_raises_witness:
  "fst (next (LightIterator_init [''ACGT\<newline>'', ''>chr1\<newline>'', ''GG\<newline>''])) = Inl ValueError
   \<and> drain (LightIterator_init [''ACGT\<newline>'', ''>chr1\<newline>'', ''GG\<newline>'']) = ([], ValueError)"
proof -
  have b: "is_body ''ACGT\<newline>''"
    by (simp add: is_body_def startswith_def)
  show ?thesis
    using body_before_marker_raises [OF b, of "[''>chr1\<newline>'', ''GG\<newline>'']"] by simp
qed

text \<open>
  C9, as amended. The claim as stated fails: a body line of whitespace only is stripped
  to the empty string, so the stream \<^verbatim>\<open>>a\<close> followed by a blank line yields the
  record with label \<^verbatim>\<open>a\<close> and the empty body.
\<close>

theorem blank_body_line_yields_empty_body:
  "fst (next (LightIterator_init [''>a\<newline>'', ''\<newline>''])) = Inr (''a'', [])"
  by code_simp

text \<open>
  C9. Every record that \<^verbatim>\<open>next\<close> returns has a body made of at least one body line:
  the call has read a prefix of the handle holding at least one body line, and the body
  is the concatenation of these lines, each stripped on the right (so it is the empty
  string exactly when all of them are whitespace). An iterator whose pending label is
  non-empty and whose next line is not a body line (end of stream, a marker line or an
  empty string) returns no record: \<^verbatim>\<open>next\<close> raises \<^verbatim>\<open>StopIteration\<close>; so does a
  new iterator on a marker line with a non-empty label that no body line follows.
\<close>

theorem record_has_a_body_line:
  "(next self = (Inr (lab, body), self') \<longrightarrow>
      (\<exists>consumed. handle self = consumed @ handle self' \<and> filter is_body consumed \<noteq> []
         \<and> body = concat (map rstrip (filter is_body consumed))))
   \<and> (d \<noteq> [] \<and> (rest = [] \<or> \<not> is_body (hd rest)) \<longrightarrow>
        fst (next \<lparr>handle = rest, defline = Some d\<rparr>) = Inl StopIteration)
   \<and> (is_marker m \<and> label m \<noteq> [] \<and> (rest = [] \<or> \<not> is_body (hd rest)) \<longrightarrow>
        fst (next (LightIterator_init (m # rest))) = Inl StopIteration)"
  using next_Inr_body [of self lab body self'] next_pending_no_body [of d rest]
    next_marker_no_body [of m rest]
  by blast

theorem record_has_a_body_line_witness:
  "next (LightIterator_init [''>a\<newline>'', ''AC \<newline>'', ''GT\<newline>'', ''>b\<newline>'', ''TT''])
     = (Inr (''a'', ''ACGT''), \<lparr>handle = [''TT''], defline = Some ''b''\<rparr>)
   \<and> (\<exists>consumed. [''>a\<newline>'', ''AC \<newline>'', ''GT\<newline>'', ''>b\<newline>'', ''TT''] = consumed @ [''TT'']
         \<and> filter is_body consumed \<noteq> []
         \<and> ''ACGT'' = concat (map rstrip (filter is_body consumed)))
   \<and> fst (next \<lparr>handle = [''>c\<newline>''], defline = Some ''b''\<rparr>) = Inl StopIteration
   \<and> fst (next (LightIterator_init [''>a\<newline>'', ''>b\<newline>'', ''TT''])) = Inl StopIteration"
proof -
  have n: "next (LightIterator_init [''>a\<newline>'', ''AC \<newline>'', ''GT\<newline>'', ''>b\<newline>'', ''TT''])
     = (Inr (''a'', ''ACGT''), \<lparr>handle = [''TT''], defline = Some ''b''\<rparr>)"
    by code_simp
  have h: "handle (LightIterator_init [''>a\<newline>'', ''AC \<newline>'', ''GT\<newline>'', ''>b\<newline>'', ''TT''])
     = [''>a\<newline>'', ''AC \<newline>'', ''GT\<newline>'', ''>b\<newline>'', ''TT'']"
    by (simp add: LightIterator_init_def)
  have p: "''b'' \<noteq> [] \<and> ([''>c\<newline>''] = [] \<or> \<not> is_body (hd [''>c\<newline>'']))"
    by (simp add: is_body_def startswith_def)
  have q: "is_marker ''>a\<newline>'' \<and> label ''>a\<newline>'' \<noteq> []
      \<and> ([''>b\<newline>'', ''TT''] = [] \<or> \<not> is_body (hd [''>b\<newline>'', ''TT'']))"
    by (simp add: is_marker_def is_body_def startswith_def label_def rstrip_def isspace_def)
  show ?thesis
    using n h p q
      record_has_a_body_line [of "LightIterator_init [''>a\<newline>'', ''AC \<newline>'', ''GT\<newline>'', ''>b\<newline>'', ''TT'']"
        "''a''" "''ACGT''" "\<lparr>handle = [''TT''], defline = Some ''b''\<rparr>" "''b''" "[''>c\<newline>'']"
        "''>a\<newline>''"]
      record_has_a_body_line [of "LightIterator_init [''>a\<newline>'', ''AC \<newline>'', ''GT\<newline>'', ''>b\<newline>'', ''TT'']"
        "''a''" "''ACGT''" "\<lparr>handle = [''TT''], defline = Some ''b''\<rparr>" "''b''" "[''>b\<newline>'', ''TT'']"
        "''>a\<newline>''"]
    by simp
qed

section \<open>Signature sniffer: classification\<close>

lemma four_bytes_value:
  "from_bytes_big [a, b, c, d] = 16777216 * uint a + 65536 * uint b + 256 * uint c + uint d"
  by simp

lemma uint_byte_bounds: "0 \<le> uint (x :: byte) \<and> uint x < 256"
  using uint_lt2p [of x] by simp

lemma four_bytes_eq_magic:
  "from_bytes_big [a, b, c, d] = 0x888FFC26 \<longleftrightarrow> a = 0x88 \<and> b = 0x8F \<and> c = 0xFC \<and> d = 0x26"
proof
  assume "from_bytes_big [a, b, c, d] = 0x888FFC26"
  then have e: "16777216 * uint a + 65536 * uint b + 256 * uint c + uint d = 0x888FFC26"
    by simp
  note ba = uint_byte_bounds [of a] and bb = uint_byte_bounds [of b]
    and bc = uint_byte_bounds [of c] and bd = uint_byte_bounds [of d]
  have ua: "uint a = 136" using e ba bb bc bd by linarith
  have ub: "uint b = 143" using e ua bb bc bd by linarith
  have uc: "uint c = 252" using e ua ub bc bd by linarith
  have ud: "uint d = 38" using e ua ub uc by linarith
  have "a = word_of_int 136" "b = word_of_int 143" "c = word_of_int 252" "d = word_of_int 38"
    using ua ub uc ud by (metis word_of_int_uint)+
  then show "a = 0x88 \<and> b = 0x8F \<and> c = 0xFC \<and> d = 0x26"
    by simp
next
  assume "a = 0x88 \<and> b = 0x8F \<and> c = 0xFC \<and> d = 0x26"
  then show "from_bytes_big [a, b, c, d] = 0x888FFC26" by simp
qed


lemma is_big_wig_prefix:
  assumes "fs filename = Some (b0 # b1 # b2 # b3 # rest)"
  shows "is_big_wig fs filename =
      Inr (from_bytes_big [b3, b2, b1, b0] = 0x888FFC26 \<or> from_bytes_big [b0, b1, b2, b3] = 0x888FFC26)"
  using assms
  by (simp add: is_big_wig_def BIG_WIG_SIGNATURE_BYTE_SIZE_def struct_unpack_def getitem_def
      BIG_WIG_SIGNATURE_def del: from_bytes_big.simps)

lemma is_big_wig_short:
  assumes "fs filename = Some content" "length content < 4"
  shows "is_big_wig fs filename = Inl StructError"
  using assms
  by (simp add: is_big_wig_def BIG_WIG_SIGNATURE_BYTE_SIZE_def struct_unpack_def)

text \<open>
  C3, as amended. The claim as stated fails on the kind of error: for an existing empty
  file the call raises \<^verbatim>\<open>struct.error\<close>, which is not an \<^verbatim>\<open>IOError\<close>.
\<close>

theorem empty_file_raises_struct_error:
  "is_big_wig [''empty.bw'' \<mapsto> []] ''empty.bw'' = Inl StructError
   \<and> is_big_wig [''empty.bw'' \<mapsto> []] ''empty.bw'' \<noteq> Inl IOError"
  by (simp add: is_big_wig_def BIG_WIG_SIGNATURE_BYTE_SIZE_def struct_unpack_def)

text \<open>
  C3. For every existing file whose content is shorter than 4 bytes (the empty file
  too), \<^verbatim>\<open>is_big_wig\<close> returns no boolean: it fails, with the \<^verbatim>\<open>struct.error\<close>
  that \<^verbatim>\<open>struct.unpack\<close> raises on the short prefix.
\<close>

theorem short_file_raises_struct_error:
  assumes "fs filename = Some content" and "length content < 4"
  shows "is_big_wig fs filename = Inl StructError"
  using assms by (rule is_big_wig_short)

theorem short_file_raises_struct_error_witness:
  "is_big_wig [''short.bw'' \<mapsto> [0x88, 0x8F, 0xFC]] ''short.bw'' = Inl StructError"
proof -
  have a: "[''short.bw'' \<mapsto> [0x88, 0x8F, 0xFC :: byte]] ''short.bw'' = Some [0x88, 0x8F, 0xFC]"
    by simp
  have b: "length [0x88, 0x8F, 0xFC :: byte] < 4"
    by simp
  show ?thesis
    using short_file_raises_struct_error
      [of "[''short.bw'' \<mapsto> [0x88, 0x8F, 0xFC]]" "''short.bw''" "[0x88, 0x8F, 0xFC]", OF a b] .
qed

text \<open>
  C5. For every file holding at least 4 bytes \<open>b0 b1 b2 b3\<close>, \<^verbatim>\<open>is_big_wig\<close> returns
  a boolean, which is true exactly when the four bytes read as an unsigned 32-bit integer
  in little-endian order, or in big-endian order, equal \<^verbatim>\<open>0x888FFC26\<close>: that is, when
  they are \<^verbatim>\<open>26 FC 8F 88\<close> or \<^verbatim>\<open>88 8F FC 26\<close>. Any other prefix, four zero bytes
  for one, gives false.
\<close>

theorem is_big_wig_iff_magic:
  assumes "fs filename = Some (b0 # b1 # b2 # b3 # rest)"
  shows "is_big_wig fs filename =
      Inr (uint b0 + 2 ^ 8 * uint b1 + 2 ^ 16 * uint b2 + 2 ^ 24 * uint b3 = 0x888FFC26
           \<or> 2 ^ 24 * uint b0 + 2 ^ 16 * uint b1 + 2 ^ 8 * uint b2 + uint b3 = 0x888FFC26)
    \<and> is_big_wig fs filename =
      Inr ([b0, b1, b2, b3] = [0x26, 0xFC, 0x8F, 0x88] \<or> [b0, b1, b2, b3] = [0x88, 0x8F, 0xFC, 0x26])"
proof
  show "is_big_wig fs filename =
      Inr (uint b0 + 2 ^ 8 * uint b1 + 2 ^ 16 * uint b2 + 2 ^ 24 * uint b3 = 0x888FFC26
           \<or> 2 ^ 24 * uint b0 + 2 ^ 16 * uint b1 + 2 ^ 8 * uint b2 + uint b3 = 0x888FFC26)"
    unfolding is_big_wig_prefix [of fs filename b0 b1 b2 b3 rest, OF assms] four_bytes_value
    by (simp add: ac_simps)
  show "is_big_wig fs filename =
      Inr ([b0, b1, b2, b3] = [0x26, 0xFC, 0x8F, 0x88] \<or> [b0, b1, b2, b3] = [0x88, 0x8F, 0xFC, 0x26])"
    unfolding is_big_wig_prefix [of fs filename b0 b1 b2 b3 rest, OF assms] four_bytes_eq_magic
    by auto
qed

theorem is_big_wig_iff_magic_witness:
  "is_big_wig [''a.bw'' \<mapsto> [0x26, 0xFC, 0x8F, 0x88, 0, 1]] ''a.bw'' = Inr True
   \<and> is_big_wig [''b.bw'' \<mapsto> [0x88, 0x8F, 0xFC, 0x26]] ''b.bw'' = Inr True
   \<and> is_big_wig [''z.bw'' \<mapsto> [0, 0, 0, 0]] ''z.bw'' = Inr False"
  using is_big_wig_iff_magic [of "[''a.bw'' \<mapsto> [0x26, 0xFC, 0x8F, 0x88, 0, 1]]" "''a.bw''"
      "0x26" "0xFC" "0x8F" "0x88" "[0, 1]"]
    is_big_wig_iff_magic [of "[''b.bw'' \<mapsto> [0x88, 0x8F, 0xFC, 0x26]]" "''b.bw''"
      "0x88" "0x8F" "0xFC" "0x26" "[]"]
    is_big_wig_iff_magic [of "[''z.bw'' \<mapsto> [0, 0, 0, 0]]" "''z.bw''" 0 0 0 0 "[]"]
  by simp

section \<open>Transparent file opener: the dispatch\<close>

lemma endswith_iff: "endswith s suf = (\<exists>stem. s = stem @ suf)"
proof
  assume "endswith s suf"
  then have "s = take (length s - length suf) s @ suf"
    by (metis append_take_drop_id endswith_def)
  then show "\<exists>stem. s = stem @ suf" ..
next
  assume "\<exists>stem. s = stem @ suf"
  then show "endswith s suf"
    by (auto simp: endswith_def)
qed

text \<open>
  C7. For every file name and every further argument (the open mode), and whatever the
  two library openers do with the file and its content, \<^verbatim>\<open>maybe_gzip_open\<close> calls the
  gzip opener exactly when the file name ends with \<^verbatim>\<open>.gz\<close> (the extension separator
  and \<^verbatim>\<open>gz\<close>, compared as they are, so \<^verbatim>\<open>.GZ\<close> does not count), and the builtin
  \<^verbatim>\<open>open\<close> otherwise: a handle it returns is the gzip stream handle if and only if the
  name has that suffix, and an error of the opener it chose is passed on.
\<close>

theorem maybe_gzip_open_by_suffix:
  "(\<forall>h. maybe_gzip_open gz pl filename args = Inr h \<longrightarrow>
      ((\<exists>g. h = Closing g) \<longleftrightarrow> (\<exists>stem. filename = stem @ ''.gz'')))
   \<and> maybe_gzip_open gz pl filename args =
      (if \<exists>stem. filename = stem @ ''.gz'' then map_sum id Closing (gz filename args)
       else map_sum id File (pl filename args))"
proof -
  have s: "endswith filename SUFFIX_GZ = (\<exists>stem. filename = stem @ ''.gz'')"
    by (simp add: endswith_iff SUFFIX_GZ_def extsep_def EXT_GZ_def)
  show ?thesis
    unfolding maybe_gzip_open_def gzip_open_def s
    by (auto split: sum.splits)
qed

theorem maybe_gzip_open_by_suffix_witness:
  "maybe_gzip_open (\<lambda>f m. Inr (''gzip'', f, m)) (\<lambda>f m. Inr (''plain'', f, m)) ''chr1.wig.gz'' ''r''
     = Inr (Closing (''gzip'', ''chr1.wig.gz'', ''r''))
   \<and> maybe_gzip_open (\<lambda>f m. Inr (''gzip'', f, m)) (\<lambda>f m. Inr (''plain'', f, m)) ''chr1.wig.GZ'' ''r''
     = Inr (File (''plain'', ''chr1.wig.GZ'', ''r''))
   \<and> maybe_gzip_open (\<lambda>f m. Inr (''gzip'', f, m)) (\<lambda>f m. Inl IOError) ''gz'' ''w''
     = (Inl IOError :: error + (string \<times> string \<times> string, unit) stream)"
proof -
  have a: "\<exists>stem. ''chr1.wig.gz'' = stem @ ''.gz''"
    by (rule exI [of _ "''chr1.wig''"]) simp
  have b: "\<not> (\<exists>stem. ''chr1.wig.GZ'' = stem @ ''.gz'')"
    using endswith_iff [of "''chr1.wig.GZ''" "''.gz''"] by (simp add: endswith_def)
  have c: "\<not> (\<exists>stem. ''gz'' = stem @ ''.gz'')"
    using endswith_iff [of "''gz''" "''.gz''"] by (simp add: endswith_def)
  show ?thesis
    using a b c
      maybe_gzip_open_by_suffix [of "\<lambda>f m. Inr (''gzip'', f, m)" "\<lambda>f m. Inr (''plain'', f, m)"
        "''chr1.wig.gz''" "''r''"]
      maybe_gzip_open_by_suffix [of "\<lambda>f m. Inr (''gzip'', f, m)" "\<lambda>f m. Inr (''plain'', f, m)"
        "''chr1.wig.GZ''" "''r''"]
      maybe_gzip_open_by_suffix [of "\<lambda>f m. Inr (''gzip'', f, m)"
        "\<lambda>f m. Inl IOError :: error + unit" "''gz''" "''w''"]
    by simp
qed

section \<open>Array accumulation helpers: counts and extrema\<close>

text \<open>
  C6. For a two-dimensional array, \<^verbatim>\<open>init_num_obs\<close> returns the second dimension when
  the recorded count is \<^verbatim>\<open>None\<close>, returns that same count when the recorded count
  equals the second dimension, and raises \<^verbatim>\<open>AssertionError\<close> (no value is returned)
  when the recorded count differs from it.
\<close>

theorem init_num_obs_checks_count:
  assumes "length (shape continuous) = 2"
  shows "init_num_obs None continuous = Inr (shape continuous ! 1)
    \<and> init_num_obs (Some (shape continuous ! 1)) continuous = Inr (shape continuous ! 1)
    \<and> (n \<noteq> shape continuous ! 1 \<longrightarrow> init_num_obs (Some n) continuous = Inl AssertionError)"
  using assms by (simp add: init_num_obs_def getitem_def)

theorem init_num_obs_checks_count_witness:
  "init_num_obs None \<lparr>shape = [100, 5]\<rparr> = Inr 5
   \<and> init_num_obs (Some 5) \<lparr>shape = [100, 5]\<rparr> = Inr 5
   \<and> init_num_obs (Some 6) \<lparr>shape = [100, 5]\<rparr> = Inl AssertionError"
  using init_num_obs_checks_count [of "\<lparr>shape = [100, 5]\<rparr>" 6] by simp

lemma as_rows_Array: "as_rows (map Array rows) = Some rows"
  by (induction rows) simp_all

lemma foldl_map2_length:
  "\<forall>row\<in>set rs. length row = length r \<Longrightarrow> length (foldl (map2 f) r rs) = length r"
  by (induction rs arbitrary: r) simp_all

lemma foldl_map2_nth:
  "\<forall>row\<in>set rs. length row = length r \<Longrightarrow> j < length r \<Longrightarrow>
     foldl (map2 f) r rs ! j = foldl f (r ! j) (map (\<lambda>row. row ! j) rs)"
  by (induction rs arbitrary: r) simp_all

lemma Min_insert_min:
  fixes a :: "'a::linorder"
  assumes "finite V"
  shows "Min (insert (min a b) V) = Min (insert a (insert b V))"
  using assms by (cases "V = {}") (simp_all add: min.assoc)

lemma Max_insert_max:
  fixes a :: "'a::linorder"
  assumes "finite V"
  shows "Max (insert (max a b) V) = Max (insert a (insert b V))"
  using assms by (cases "V = {}") (simp_all add: max.assoc)

lemma foldl_np_minimum:
  "foldl np_minimum c cs =
     (if NaN \<in> set (c # cs) then NaN else Num (Min (num_value ` set (c # cs))))"
proof (induction cs arbitrary: c)
  case Nil
  then show ?case by (cases c) simp_all
next
  case (Cons x cs)
  show ?case
  proof (cases c)
    case NaN
    then show ?thesis using Cons [of NaN] by simp
  next
    case (Num a)
    show ?thesis
    proof (cases x)
      case NaN
      then show ?thesis using Cons [of NaN] Num by simp
    next
      case x: (Num b)
      have "Min (insert (min a b) (num_value ` set cs)) =
          Min (insert a (insert b (num_value ` set cs)))"
        by (rule Min_insert_min) simp
      then show ?thesis using Cons [of "Num (min a b)"] Num x by simp
    qed
  qed
qed

lemma foldl_np_maximum:
  "foldl np_maximum c cs =
     (if NaN \<in> set (c # cs) then NaN else Num (Max (num_value ` set (c # cs))))"
proof (induction cs arbitrary: c)
  case Nil
  then show ?case by (cases c) simp_all
next
  case (Cons x cs)
  show ?case
  proof (cases c)
    case NaN
    then show ?thesis using Cons [of NaN] by simp
  next
    case (Num a)
    show ?thesis
    proof (cases x)
      case NaN
      then show ?thesis using Cons [of NaN] Num by simp
    next
      case x: (Num b)
      have "Max (insert (max a b) (num_value ` set cs)) =
          Max (insert a (insert b (num_value ` set cs)))"
        by (rule Max_insert_max) simp
      then show ?thesis using Cons [of "Num (max a b)"] Num x by simp
    qed
  qed
qed

lemma np_reduce_rows:
  assumes "rows \<noteq> []" "\<forall>row\<in>set rows. length row = n"
  shows "np_reduce f (map Array rows) 0 = Inr (foldl (map2 f) (hd rows) (tl rows))"
    and "length (foldl (map2 f) (hd rows) (tl rows)) = n"
    and "j < n \<Longrightarrow> foldl (map2 f) (hd rows) (tl rows) ! j =
           foldl f (hd rows ! j) (map (\<lambda>row. row ! j) (tl rows))"
proof -
  obtain r rs where rows: "rows = r # rs" using assms(1) by (cases rows) auto
  with assms(2) have len: "length r = n" "\<forall>row\<in>set rs. length row = length r" by simp_all
  show "np_reduce f (map Array rows) 0 = Inr (foldl (map2 f) (hd rows) (tl rows))"
    using len(2) by (simp add: np_reduce_def as_rows_Array rows list_ex_iff)
  show "length (foldl (map2 f) (hd rows) (tl rows)) = n"
    using foldl_map2_length [OF len(2)] len(1) by (simp add: rows)
  show "foldl (map2 f) (hd rows) (tl rows) ! j =
      foldl f (hd rows ! j) (map (\<lambda>row. row ! j) (tl rows))" if "j < n"
    using foldl_map2_nth [OF len(2)] that len(1) by (simp add: rows)
qed

lemma column_min:
  assumes "rows \<noteq> []"
  shows "foldl np_minimum (hd rows ! j) (map (\<lambda>row. row ! j) (tl rows)) =
     (if NaN \<in> (\<lambda>row. row ! j) ` set rows then NaN
      else Num (Min (num_value ` (\<lambda>row. row ! j) ` set rows)))"
proof -
  obtain r rs where rows: "rows = r # rs" using assms by (cases rows) auto
  show ?thesis
    using foldl_np_minimum [of "r ! j" "map (\<lambda>row. row ! j) rs"] by (simp add: rows)
qed

lemma column_max:
  assumes "rows \<noteq> []"
  shows "foldl np_maximum (hd rows ! j) (map (\<lambda>row. row ! j) (tl rows)) =
     (if NaN \<in> (\<lambda>row. row ! j) ` set rows then NaN
      else Num (Max (num_value ` (\<lambda>row. row ! j) ` set rows)))"
proof -
  obtain r rs where rows: "rows = r # rs" using assms by (cases rows) auto
  show ?thesis
    using foldl_np_maximum [of "r ! j" "map (\<lambda>row. row ! j) rs"] by (simp add: rows)
qed

lemma np_reduce_pair:
  assumes "length a = length b"
  shows "np_reduce f [Array a, Array b] 0 = Inr (map2 f a b)"
  using assms by (simp add: np_reduce_def)

lemma new_extrema_np_reduce:
  assumes "data \<noteq> []" "\<forall>row\<in>set data. length row = n" "length ext = n"
  shows "new_extrema (np_reduce f) (map Array data) (Array ext) =
      Inr (map2 f ext (foldl (map2 f) (hd data) (tl data)))"
  using np_reduce_rows(1,2) [OF assms(1,2), of f] assms(3)
  by (simp add: new_extrema_def np_reduce_pair)

lemma np_less_equal_Num:
  assumes "np_less_equal x y"
  obtains a b where "x = Num a" "y = Num b" "a \<le> b"
  using assms by (cases x; cases y) simp_all

text \<open>
  C2, as amended. The claim as stated fails on the first call: \<^verbatim>\<open>new_extrema\<close> has no
  case for a missing extremum, it hands \<^verbatim>\<open>None\<close> to the operator as one of two rows,
  and the reduction of such a list is not the reduction of the batch; with the model of
  \<^verbatim>\<open>amin\<close> above it fails.
\<close>

theorem new_extrema_none_is_not_batch_reduction:
  "new_extrema amin [Array [Num (1 :: int), Num 5, Num 3]] NoneValue = Inl ValueError
   \<and> amin [Array [Num (1 :: int), Num 5, Num 3]] 0 = Inr [Num 1, Num 5, Num 3]"
  by (simp add: new_extrema_def amin_def np_reduce_def)

text \<open>
  C2. For a batch of at least one row, all rows of length \<open>n\<close>, and an existing extremum
  array of length \<open>n\<close>: the reduction of the batch along axis 0 is, at every position,
  \<^verbatim>\<open>nan\<close> when the batch holds a \<^verbatim>\<open>nan\<close> at that position and otherwise the least
  (with \<^verbatim>\<open>amin\<close>) or greatest (with \<^verbatim>\<open>amax\<close>) value of the batch at that
  position, and \<^verbatim>\<open>new_extrema\<close> returns the element-wise minimum (maximum) of the
  existing array and that reduction. For every operator and every batch, a missing
  extremum is passed to the operator like any other row.
\<close>

theorem new_extrema_elementwise:
  assumes "data \<noteq> []" "\<forall>row\<in>set data. length row = n" "length ext = n"
  shows "(\<exists>cmin cmax.
      amin (map Array data) 0 = Inr cmin \<and> amax (map Array data) 0 = Inr cmax
      \<and> length cmin = n \<and> length cmax = n
      \<and> (\<forall>j<n. if NaN \<in> (\<lambda>row. row ! j) ` set data then cmin ! j = NaN \<and> cmax ! j = NaN
               else cmin ! j = Num (Min (num_value ` (\<lambda>row. row ! j) ` set data))
                 \<and> cmax ! j = Num (Max (num_value ` (\<lambda>row. row ! j) ` set data)))
      \<and> new_extrema amin (map Array data) (Array ext) = Inr (map2 np_minimum ext cmin)
      \<and> new_extrema amax (map Array data) (Array ext) = Inr (map2 np_maximum ext cmax))
    \<and> new_extrema func batch NoneValue =
        (case func batch 0 of Inl e \<Rightarrow> Inl e | Inr c \<Rightarrow> func [NoneValue, Array c] 0)"
proof
  show "\<exists>cmin cmax.
      amin (map Array data) 0 = Inr cmin \<and> amax (map Array data) 0 = Inr cmax
      \<and> length cmin = n \<and> length cmax = n
      \<and> (\<forall>j<n. if NaN \<in> (\<lambda>row. row ! j) ` set data then cmin ! j = NaN \<and> cmax ! j = NaN
               else cmin ! j = Num (Min (num_value ` (\<lambda>row. row ! j) ` set data))
                 \<and> cmax ! j = Num (Max (num_value ` (\<lambda>row. row ! j) ` set data)))
      \<and> new_extrema amin (map Array data) (Array ext) = Inr (map2 np_minimum ext cmin)
      \<and> new_extrema amax (map Array data) (Array ext) = Inr (map2 np_maximum ext cmax)"
  proof (intro exI conjI)
    show "amin (map Array data) 0 = Inr (foldl (map2 np_minimum) (hd data) (tl data))"
      unfolding amin_def using assms(1,2) by (rule np_reduce_rows(1))
    show "amax (map Array data) 0 = Inr (foldl (map2 np_maximum) (hd data) (tl data))"
      unfolding amax_def using assms(1,2) by (rule np_reduce_rows(1))
    show "length (foldl (map2 np_minimum) (hd data) (tl data)) = n"
      using assms(1,2) by (rule np_reduce_rows(2))
    show "length (foldl (map2 np_maximum) (hd data) (tl data)) = n"
      using assms(1,2) by (rule np_reduce_rows(2))
    show "\<forall>j<n. if NaN \<in> (\<lambda>row. row ! j) ` set data
        then foldl (map2 np_minimum) (hd data) (tl data) ! j = NaN
          \<and> foldl (map2 np_maximum) (hd data) (tl data) ! j = NaN
        else foldl (map2 np_minimum) (hd data) (tl data) ! j =
            Num (Min (num_value ` (\<lambda>row. row ! j) ` set data))
          \<and> foldl (map2 np_maximum) (hd data) (tl data) ! j =
            Num (Max (num_value ` (\<lambda>row. row ! j) ` set data))"
      using np_reduce_rows(3) [OF assms(1,2)] column_min [OF assms(1)] column_max [OF assms(1)]
      by simp
    show "new_extrema amin (map Array data) (Array ext) =
        Inr (map2 np_minimum ext (foldl (map2 np_minimum) (hd data) (tl data)))"
      unfolding amin_def using assms by (rule new_extrema_np_reduce)
    show "new_extrema amax (map Array data) (Array ext) =
        Inr (map2 np_maximum ext (foldl (map2 np_maximum) (hd data) (tl data)))"
      unfolding amax_def using assms by (rule new_extrema_np_reduce)
  qed
  show "new_extrema func batch NoneValue =
      (case func batch 0 of Inl e \<Rightarrow> Inl e | Inr c \<Rightarrow> func [NoneValue, Array c] 0)"
    by (simp add: new_extrema_def)
qed

theorem new_extrema_elementwise_witness:
  "new_extrema amax [Array [Num (4 :: int), Num 0, Num 6]] (Array [Num 1, Num 5, Num 3])
     = Inr [Num 4, Num 5, Num 6]
   \<and> new_extrema amin [Array [Num (4 :: int), Num 0, Num 6]] (Array [Num 1, Num 5, Num 3])
     = Inr [Num 1, Num 0, Num 3]"
proof -
  have d: "[[Num (4 :: int), Num 0, Num 6]] \<noteq> []"
    and r: "\<forall>row\<in>set [[Num (4 :: int), Num 0, Num 6]]. length row = 3"
    and e: "length [Num (1 :: int), Num 5, Num 3] = 3"
    by simp_all
  from new_extrema_elementwise [OF d r e] obtain cmin cmax where
    "amin (map Array [[Num (4 :: int), Num 0, Num 6]]) 0 = Inr cmin"
    "amax (map Array [[Num (4 :: int), Num 0, Num 6]]) 0 = Inr cmax"
    "new_extrema amin (map Array [[Num 4, Num 0, Num 6]]) (Array [Num 1, Num 5, Num 3])
       = Inr (map2 np_minimum [Num 1, Num 5, Num 3] cmin)"
    "new_extrema amax (map Array [[Num 4, Num 0, Num 6]]) (Array [Num 1, Num 5, Num 3])
       = Inr (map2 np_maximum [Num 1, Num 5, Num 3] cmax)"
    by blast
  moreover have "amin (map Array [[Num (4 :: int), Num 0, Num 6]]) 0 = Inr [Num 4, Num 0, Num 6]"
    "amax (map Array [[Num (4 :: int), Num 0, Num 6]]) 0 = Inr [Num 4, Num 0, Num 6]"
    by (simp_all add: amin_def amax_def np_reduce_def)
  ultimately show ?thesis by simp
qed

text \<open>
  C8, as amended. The claim as stated fails for two kinds of batch. A \<^verbatim>\<open>nan\<close> in the
  batch is carried into both results, and \<^verbatim>\<open>nan <= nan\<close> is false: from
  \<open>cur_min = [0]\<close> and \<open>cur_max = [1]\<close> the batch \<open>[[nan]]\<close> gives \<open>new_min = [nan]\<close> and
  \<open>new_max = [nan]\<close>. And the empty batch gives no arrays: the reduction raises
  \<^verbatim>\<open>ValueError\<close>.
\<close>

theorem new_extrema_nan_breaks_min_le_max:
  "list_all2 np_less_equal [Num (0 :: int)] [Num 1]
   \<and> new_extrema amin [Array [NaN]] (Array [Num (0 :: int)]) = Inr [NaN]
   \<and> new_extrema amax [Array [NaN]] (Array [Num (1 :: int)]) = Inr [NaN]
   \<and> \<not> list_all2 np_less_equal [NaN :: int number] [NaN]
   \<and> new_extrema amin [] (Array [Num (0 :: int)]) = Inl ValueError"
  by (simp add: new_extrema_def amin_def amax_def np_reduce_def)

text \<open>
  C8. The invariant of the running extremum pair is kept by batches that are not empty
  and hold no \<^verbatim>\<open>nan\<close>: for arrays \<open>cur_min\<close> and \<open>cur_max\<close> of the same length \<open>n\<close>
  with \<open>cur_min \<le> cur_max\<close> at every position, and every batch of at least one row, all
  rows of length \<open>n\<close> and without \<^verbatim>\<open>nan\<close>, folding the batch into \<open>cur_min\<close> with
  \<^verbatim>\<open>amin\<close> and into \<open>cur_max\<close> with \<^verbatim>\<open>amax\<close> returns two arrays of length \<open>n\<close>
  with \<open>new_min \<le> new_max\<close> at every position.
\<close>

theorem new_extrema_keeps_min_le_max:
  assumes "data \<noteq> []" "\<forall>row\<in>set data. length row = n \<and> NaN \<notin> set row"
    and "length cur_min = n" "length cur_max = n" "list_all2 np_less_equal cur_min cur_max"
  shows "\<exists>new_min new_max.
      new_extrema amin (map Array data) (Array cur_min) = Inr new_min
      \<and> new_extrema amax (map Array data) (Array cur_max) = Inr new_max
      \<and> length new_min = n \<and> length new_max = n
      \<and> list_all2 np_less_equal new_min new_max"
proof -
  let ?cmin = "foldl (map2 np_minimum) (hd data) (tl data)"
  let ?cmax = "foldl (map2 np_maximum) (hd data) (tl data)"
  have len: "\<forall>row\<in>set data. length row = n"
    using assms(2) by simp
  have lmin: "length ?cmin = n" and lmax: "length ?cmax = n"
    using assms(1) len by (rule np_reduce_rows(2))+
  have mn: "new_extrema amin (map Array data) (Array cur_min) = Inr (map2 np_minimum cur_min ?cmin)"
    unfolding amin_def using assms(1) len assms(3) by (rule new_extrema_np_reduce)
  have mx: "new_extrema amax (map Array data) (Array cur_max) = Inr (map2 np_maximum cur_max ?cmax)"
    unfolding amax_def using assms(1) len assms(4) by (rule new_extrema_np_reduce)
  have "np_less_equal (map2 np_minimum cur_min ?cmin ! j) (map2 np_maximum cur_max ?cmax ! j)"
    if j: "j < n" for j
  proof -
    have "np_less_equal (cur_min ! j) (cur_max ! j)"
      using assms(3,5) j by (simp add: list_all2_conv_all_nth)
    then obtain a b where ab: "cur_min ! j = Num a" "cur_max ! j = Num b" "a \<le> b"
      by (rule np_less_equal_Num)
    have "NaN \<notin> (\<lambda>row. row ! j) ` set data"
      using assms(2) j by (metis (no_types, lifting) image_iff nth_mem)
    then obtain lo hi where "?cmin ! j = Num lo" "?cmax ! j = Num hi"
      using np_reduce_rows(3) [OF assms(1) len j, of np_minimum]
        np_reduce_rows(3) [OF assms(1) len j, of np_maximum]
        column_min [OF assms(1), of j] column_max [OF assms(1), of j]
      by simp
    then show ?thesis
      using j assms(3,4) lmin lmax ab by (simp add: min_le_iff_disj le_max_iff_disj)
  qed
  then have "list_all2 np_less_equal (map2 np_minimum cur_min ?cmin) (map2 np_maximum cur_max ?cmax)"
    using assms(3,4) lmin lmax by (simp add: list_all2_conv_all_nth)
  then show ?thesis
    using mn mx assms(3,4) lmin lmax by simp
qed

theorem new_extrema_keeps_min_le_max_witness:
  "new_extrema amin [Array [Num (4 :: int), Num 0, Num 6], Array [Num 7, Num (- 1), Num 6]]
       (Array [Num 0, Num 2, Num 3]) = Inr [Num 0, Num (- 1), Num 3]
   \<and> new_extrema amax [Array [Num (4 :: int), Num 0, Num 6], Array [Num 7, Num (- 1), Num 6]]
       (Array [Num 1, Num 5, Num 3]) = Inr [Num 7, Num 5, Num 6]
   \<and> list_all2 np_less_equal [Num (0 :: int), Num (- 1), Num 3] [Num 7, Num 5, Num 6]"
proof -
  have d: "[[Num (4 :: int), Num 0, Num 6], [Num 7, Num (- 1), Num 6]] \<noteq> []"
    and r: "\<forall>row\<in>set [[Num (4 :: int), Num 0, Num 6], [Num 7, Num (- 1), Num 6]].
        length row = 3 \<and> NaN \<notin> set row"
    and l1: "length [Num (0 :: int), Num 2, Num 3] = 3"
    and l2: "length [Num (1 :: int), Num 5, Num 3] = 3"
    and o: "list_all2 np_less_equal [Num (0 :: int), Num 2, Num 3] [Num 1, Num 5, Num 3]"
    by simp_all
  from new_extrema_keeps_min_le_max [OF d r l1 l2 o] obtain new_min new_max where
    "new_extrema amin (map Array [[Num (4 :: int), Num 0, Num 6], [Num 7, Num (- 1), Num 6]])
       (Array [Num 0, Num 2, Num 3]) = Inr new_min"
    "new_extrema amax (map Array [[Num (4 :: int), Num 0, Num 6], [Num 7, Num (- 1), Num 6]])
       (Array [Num 1, Num 5, Num 3]) = Inr new_max"
    "list_all2 np_less_equal new_min new_max"
    by blast
  moreover have
    "new_extrema amin (map Array [[Num (4 :: int), Num 0, Num 6], [Num 7, Num (- 1), Num 6]])
       (Array [Num 0, Num 2, Num 3]) = Inr [Num 0, Num (- 1), Num 3]"
    "new_extrema amax (map Array [[Num (4 :: int), Num 0, Num 6], [Num 7, Num (- 1), Num 6]])
       (Array [Num 1, Num 5, Num 3]) = Inr [Num 7, Num 5, Num 6]"
    by (simp_all add: new_extrema_def amin_def amax_def np_reduce_def)
  ultimately show ?thesis by simp
qed

section \<open>Comment filter: what it yields\<close>

lemma ignore_comments_filter:
  "ignore_comments xs = filter (\<lambda>item. \<not> startswith item ''#'') xs"
  by (induction xs) simp_all

text \<open>
  C10. \<^verbatim>\<open>ignore_comments\<close> yields exactly the items whose first character is not
  \<^verbatim>\<open>#\<close> (the empty string is kept), in their original order and unchanged: the
  result is the input filtered by that test, hence a subsequence of the input, and an
  item occurs in it as often as in the input or not at all.
\<close>

theorem ignore_comments_subsequence:
  "ignore_comments xs = filter (\<lambda>item. case item of [] \<Rightarrow> True | c # _ \<Rightarrow> c \<noteq> CHR ''#'') xs
   \<and> subseq (ignore_comments xs) xs
   \<and> count_list (ignore_comments xs) item =
       (if (case item of [] \<Rightarrow> True | c # _ \<Rightarrow> c \<noteq> CHR ''#'') then count_list xs item else 0)"
proof (intro conjI)
  have test: "(\<not> startswith i ''#'') = (case i of [] \<Rightarrow> True | c # _ \<Rightarrow> c \<noteq> CHR ''#'')" for i
    by (cases i) (simp_all add: startswith_char)
  show flt: "ignore_comments xs =
      filter (\<lambda>item. case item of [] \<Rightarrow> True | c # _ \<Rightarrow> c \<noteq> CHR ''#'') xs"
    by (simp add: ignore_comments_filter test)
  show "subseq (ignore_comments xs) xs"
    by (simp add: flt)
  show "count_list (ignore_comments xs) item =
       (if (case item of [] \<Rightarrow> True | c # _ \<Rightarrow> c \<noteq> CHR ''#'') then count_list xs item else 0)"
    unfolding flt by (induction xs) auto
qed

theorem ignore_comments_subsequence_witness:
  "ignore_comments [''# header'', ''chr1 5'', '''', ''#'', ''a#b''] = [''chr1 5'', '''', ''a#b'']
   \<and> subseq [''chr1 5'', '''', ''a#b''] [''# header'', ''chr1 5'', '''', ''#'', ''a#b'']"
  using ignore_comments_subsequence [of "[''# header'', ''chr1 5'', '''', ''#'', ''a#b'']" "''#''"]
  by simp

end
